theory Spec2Isabelle
  imports Main "HOL-Library.Word"
begin

unbundle bit_operations_syntax

section \<open>TCP China congestion control: data model\<close>

text \<open>
  A shallow embedding of \<^verbatim>\<open>tcp_china.c\<close>. The C types \<^verbatim>\<open>u32\<close> and
  \<^verbatim>\<open>unsigned int\<close> are 32-bit words (arithmetic wraps, comparisons are unsigned),
  \<^verbatim>\<open>s32\<close> is a 32-bit word read as two's complement through \<open>sint\<close>.
\<close>

type_synonym u32 = "32 word"
type_synonym s32 = "32 word"

text \<open>\<^verbatim>\<open>struct hstcp_aimd_val { unsigned int cwnd; unsigned int md; }\<close>\<close>

record hstcp_aimd_val =
  cwnd :: u32
  md :: u32

text \<open>
  The AIMD table of RFC 3649 appendix B, with the fixed-point multiplicative decrease
  scaled by 256, entry for entry as in the source.
\<close>

definition hstcp_aimd_vals :: "hstcp_aimd_val list" where
  "hstcp_aimd_vals = [
    \<lparr>cwnd = 38, md = 128\<rparr>,
    \<lparr>cwnd = 118, md = 112\<rparr>,
    \<lparr>cwnd = 221, md = 104\<rparr>,
    \<lparr>cwnd = 347, md = 98\<rparr>,
    \<lparr>cwnd = 495, md = 93\<rparr>,
    \<lparr>cwnd = 663, md = 89\<rparr>,
    \<lparr>cwnd = 851, md = 86\<rparr>,
    \<lparr>cwnd = 1058, md = 83\<rparr>,
    \<lparr>cwnd = 1284, md = 81\<rparr>,
    \<lparr>cwnd = 1529, md = 78\<rparr>,
    \<lparr>cwnd = 1793, md = 76\<rparr>,
    \<lparr>cwnd = 2076, md = 74\<rparr>,
    \<lparr>cwnd = 2378, md = 72\<rparr>,
    \<lparr>cwnd = 2699, md = 71\<rparr>,
    \<lparr>cwnd = 3039, md = 69\<rparr>,
    \<lparr>cwnd = 3399, md = 68\<rparr>,
    \<lparr>cwnd = 3778, md = 66\<rparr>,
    \<lparr>cwnd = 4177, md = 65\<rparr>,
    \<lparr>cwnd = 4596, md = 64\<rparr>,
    \<lparr>cwnd = 5036, md = 62\<rparr>,
    \<lparr>cwnd = 5497, md = 61\<rparr>,
    \<lparr>cwnd = 5979, md = 60\<rparr>,
    \<lparr>cwnd = 6483, md = 59\<rparr>,
    \<lparr>cwnd = 7009, md = 58\<rparr>,
    \<lparr>cwnd = 7558, md = 57\<rparr>,
    \<lparr>cwnd = 8130, md = 56\<rparr>,
    \<lparr>cwnd = 8726, md = 55\<rparr>,
    \<lparr>cwnd = 9346, md = 54\<rparr>,
    \<lparr>cwnd = 9991, md = 53\<rparr>,
    \<lparr>cwnd = 10661, md = 52\<rparr>,
    \<lparr>cwnd = 11358, md = 52\<rparr>,
    \<lparr>cwnd = 12082, md = 51\<rparr>,
    \<lparr>cwnd = 12834, md = 50\<rparr>,
    \<lparr>cwnd = 13614, md = 49\<rparr>,
    \<lparr>cwnd = 14424, md = 48\<rparr>,
    \<lparr>cwnd = 15265, md = 48\<rparr>,
    \<lparr>cwnd = 16137, md = 47\<rparr>,
    \<lparr>cwnd = 17042, md = 46\<rparr>,
    \<lparr>cwnd = 17981, md = 45\<rparr>,
    \<lparr>cwnd = 18955, md = 45\<rparr>,
    \<lparr>cwnd = 19965, md = 44\<rparr>,
    \<lparr>cwnd = 21013, md = 43\<rparr>,
    \<lparr>cwnd = 22101, md = 43\<rparr>,
    \<lparr>cwnd = 23230, md = 42\<rparr>,
    \<lparr>cwnd = 24402, md = 41\<rparr>,
    \<lparr>cwnd = 25618, md = 41\<rparr>,
    \<lparr>cwnd = 26881, md = 40\<rparr>,
    \<lparr>cwnd = 28193, md = 39\<rparr>,
    \<lparr>cwnd = 29557, md = 39\<rparr>,
    \<lparr>cwnd = 30975, md = 38\<rparr>,
    \<lparr>cwnd = 32450, md = 38\<rparr>,
    \<lparr>cwnd = 33986, md = 37\<rparr>,
    \<lparr>cwnd = 35586, md = 36\<rparr>,
    \<lparr>cwnd = 37253, md = 36\<rparr>,
    \<lparr>cwnd = 38992, md = 35\<rparr>,
    \<lparr>cwnd = 40808, md = 35\<rparr>,
    \<lparr>cwnd = 42707, md = 34\<rparr>,
    \<lparr>cwnd = 44694, md = 33\<rparr>,
    \<lparr>cwnd = 46776, md = 33\<rparr>,
    \<lparr>cwnd = 48961, md = 32\<rparr>,
    \<lparr>cwnd = 51258, md = 32\<rparr>,
    \<lparr>cwnd = 53677, md = 31\<rparr>,
    \<lparr>cwnd = 56230, md = 30\<rparr>,
    \<lparr>cwnd = 58932, md = 30\<rparr>,
    \<lparr>cwnd = 61799, md = 29\<rparr>,
    \<lparr>cwnd = 64851, md = 28\<rparr>,
    \<lparr>cwnd = 68113, md = 28\<rparr>,
    \<lparr>cwnd = 71617, md = 27\<rparr>,
    \<lparr>cwnd = 75401, md = 26\<rparr>,
    \<lparr>cwnd = 79517, md = 26\<rparr>,
    \<lparr>cwnd = 84035, md = 25\<rparr>,
    \<lparr>cwnd = 89053, md = 24\<rparr>
  ]"

text \<open>\<^verbatim>\<open>#define HSTCP_AIMD_MAX ARRAY_SIZE(hstcp_aimd_vals)\<close>\<close>

definition HSTCP_AIMD_MAX :: nat where
  "HSTCP_AIMD_MAX = length hstcp_aimd_vals"

text \<open>
  The array read \<^verbatim>\<open>hstcp_aimd_vals[i]\<close>. C gives no meaning to a read past the end
  of the array; the model returns \<open>None\<close> there, and every function that reads the
  table passes the failure on.
\<close>

definition aimd_val :: "nat \<Rightarrow> hstcp_aimd_val option" where
  "aimd_val i = (if i < HSTCP_AIMD_MAX then Some (hstcp_aimd_vals ! i) else None)"

text \<open>\<^verbatim>\<open>struct china\<close>: the private state of one connection.\<close>

record china =
  minrtt :: u32
  artt :: u32
  ai :: u32

text \<open>
  The fields of the kernel's \<^verbatim>\<open>struct tcp_sock\<close> that the module reads and writes:
  the congestion window, the slow-start threshold, the fractional window counter and the
  window clamp.
\<close>

record tcp_sock =
  snd_cwnd :: u32
  snd_ssthresh :: u32
  snd_cwnd_cnt :: u32
  snd_cwnd_clamp :: u32

section \<open>Operations\<close>

definition tcp_china_reset :: "china \<Rightarrow> china" where
  "tcp_china_reset ca = ca\<lparr>minrtt := 0, artt := 0\<rparr>"

text \<open>
  \<^verbatim>\<open>tcp_china_init\<close>: \<^verbatim>\<open>ca->ai = 0\<close>, then the clamp becomes
  \<^verbatim>\<open>min_t(u32, tp->snd_cwnd_clamp, 0xffffffff/128)\<close>, then the reset.
\<close>

definition tcp_china_init :: "tcp_sock \<Rightarrow> china \<Rightarrow> tcp_sock \<times> china" where
  "tcp_china_init tp ca =
     (tp\<lparr>snd_cwnd_clamp := min (snd_cwnd_clamp tp) (0xffffffff div 128)\<rparr>,
      tcp_china_reset (ca\<lparr>ai := 0\<rparr>))"

text \<open>
  \<^verbatim>\<open>tcp_china_rtt_calc(sk, num_acked, rtt_us)\<close>. The sum \<^verbatim>\<open>rtt_us + 1\<close> is taken on
  the signed value and stored in a \<^verbatim>\<open>u32\<close>, that is, reduced modulo \<open>2 ^ 32\<close>.
\<close>

definition tcp_china_rtt_calc :: "china \<Rightarrow> u32 \<Rightarrow> s32 \<Rightarrow> china" where
  "tcp_china_rtt_calc ca num_acked rtt_us =
     (let rtt = (word_of_int (sint rtt_us + 1) :: u32);
          minrtt0 = minrtt ca;
          artt0 = artt ca;
          minrtt1 = (if rtt < minrtt0 \<or> minrtt0 = 0 then rtt else minrtt0);
          artt1 = (if artt0 > 0 then artt0 + (drop_bit 3 rtt - drop_bit 3 artt0) else rtt)
      in ca\<lparr>artt := artt1, minrtt := minrtt1\<rparr>)"

text \<open>
  The first loop of \<^verbatim>\<open>tcp_china_cong_avoid\<close>:
  \<^verbatim>\<open>while (snd_cwnd > hstcp_aimd_vals[ai].cwnd && ai < HSTCP_AIMD_MAX - 1) ai++;\<close>
  The table is read before the bound on \<^verbatim>\<open>ai\<close> is tested, as \<^verbatim>\<open>&&\<close> evaluates.
\<close>

function advance_index_for :: "u32 \<Rightarrow> u32 \<Rightarrow> u32 option" where
  "advance_index_for w i =
     (case aimd_val (unat i) of
        None \<Rightarrow> None
      | Some e \<Rightarrow>
          if w > cwnd e \<and> unat i < HSTCP_AIMD_MAX - 1
          then advance_index_for w (i + 1)
          else Some i)"
  by pat_completeness auto
termination
proof (relation "measure (\<lambda>(w, i). HSTCP_AIMD_MAX - unat i)")
  show "wf (measure (\<lambda>(w, i). HSTCP_AIMD_MAX - unat i))" by simp
next
  fix w i :: u32 and e :: hstcp_aimd_val
  assume "aimd_val (unat i) = Some e" and "cwnd e < w \<and> unat i < HSTCP_AIMD_MAX - 1"
  then have lt: "unat i < HSTCP_AIMD_MAX - 1" by simp
  have "HSTCP_AIMD_MAX < 2 ^ 32"
    by (simp add: HSTCP_AIMD_MAX_def hstcp_aimd_vals_def)
  with lt have "unat i + 1 < 2 ^ 32" by simp
  then have "unat (i + 1) = unat i + 1"
    by (simp add: unat_word_ariths)
  with lt show "((w, i + 1), (w, i)) \<in> measure (\<lambda>(w, i). HSTCP_AIMD_MAX - unat i)"
    by simp
qed

declare advance_index_for.simps [simp del]

text \<open>
  The second loop:
  \<^verbatim>\<open>while (ai && snd_cwnd <= hstcp_aimd_vals[ai-1].cwnd) ai--;\<close>
\<close>

function retreat_index_for :: "u32 \<Rightarrow> u32 \<Rightarrow> u32 option" where
  "retreat_index_for w i =
     (if i \<noteq> 0
      then (case aimd_val (unat (i - 1)) of
              None \<Rightarrow> None
            | Some e \<Rightarrow> if w \<le> cwnd e then retreat_index_for w (i - 1) else Some i)
      else Some i)"
  by pat_completeness auto
termination
proof (relation "measure (\<lambda>(w, i). unat i)")
  show "wf (measure (\<lambda>(w, i). unat i))" by simp
next
  fix w i :: u32
  assume "i \<noteq> 0"
  then have "unat (i - 1) < unat i"
    by (simp add: unat_minus_one unat_gt_0)
  then show "((w, i - 1), (w, i)) \<in> measure (\<lambda>(w, i). unat i)" by simp
qed

declare retreat_index_for.simps [simp del]

text \<open>
  The update of the AIMD parameters in \<^verbatim>\<open>tcp_china_cong_avoid\<close>: the
  \<^verbatim>\<open>if (...) { while ... } else if (...) { while ... }\<close> around the two loops.
\<close>

definition update_aimd :: "u32 \<Rightarrow> u32 \<Rightarrow> u32 option" where
  "update_aimd w i =
     (case aimd_val (unat i) of
        None \<Rightarrow> None
      | Some e \<Rightarrow>
          if w > cwnd e then advance_index_for w i
          else if i \<noteq> 0 then
            (case aimd_val (unat (i - 1)) of
               None \<Rightarrow> None
             | Some e' \<Rightarrow> if w \<le> cwnd e' then retreat_index_for w i else Some i)
          else Some i)"

text \<open>
  The additive increase of \<^verbatim>\<open>tcp_china_cong_avoid\<close>, with the table index \<open>i\<close> the
  update has left:
  \<^verbatim>\<open>if (snd_cwnd < snd_cwnd_clamp) { snd_cwnd_cnt += ai + 1;
       if (snd_cwnd_cnt >= snd_cwnd) { snd_cwnd_cnt -= snd_cwnd; snd_cwnd++; } }\<close>
\<close>

definition additive_increase :: "tcp_sock \<Rightarrow> u32 \<Rightarrow> tcp_sock" where
  "additive_increase tp i =
     (if snd_cwnd tp < snd_cwnd_clamp tp then
        (let tp1 = tp\<lparr>snd_cwnd_cnt := snd_cwnd_cnt tp + (i + 1)\<rparr>
         in if snd_cwnd_cnt tp1 \<ge> snd_cwnd tp1
            then tp1\<lparr>snd_cwnd_cnt := snd_cwnd_cnt tp1 - snd_cwnd tp1,
                     snd_cwnd := snd_cwnd tp1 + 1\<rparr>
            else tp1)
      else tp)"

text \<open>
  \<^verbatim>\<open>tcp_china_cong_avoid\<close>. Two things come from the kernel and are parameters here:
  \<open>tcp_slow_start\<close>, the kernel's slow start acting on the socket, and
  \<open>is_cwnd_limited\<close>, the value \<^verbatim>\<open>tcp_is_cwnd_limited(sk)\<close> returns for this call.
  The argument \<^verbatim>\<open>ack\<close> is never read and is left out.
\<close>

definition tcp_china_cong_avoid ::
  "(tcp_sock \<Rightarrow> u32 \<Rightarrow> tcp_sock) \<Rightarrow> bool \<Rightarrow> tcp_sock \<Rightarrow> china \<Rightarrow> u32
     \<Rightarrow> (tcp_sock \<times> china) option" where
  "tcp_china_cong_avoid tcp_slow_start is_cwnd_limited tp ca acked =
     (if \<not> is_cwnd_limited then Some (tp, ca)
      else if snd_cwnd tp \<le> snd_ssthresh tp then Some (tcp_slow_start tp acked, ca)
      else (case update_aimd (snd_cwnd tp) (ai ca) of
              None \<Rightarrow> None
            | Some i \<Rightarrow> Some (additive_increase tp i, ca\<lparr>ai := i\<rparr>)))"

text \<open>
  \<^verbatim>\<open>tcp_china_ssthresh\<close>:
  \<^verbatim>\<open>max(snd_cwnd - ((snd_cwnd * hstcp_aimd_vals[ai].md) >> 8), 2U)\<close>.
\<close>

definition tcp_china_ssthresh :: "tcp_sock \<Rightarrow> china \<Rightarrow> u32 option" where
  "tcp_china_ssthresh tp ca =
     (case aimd_val (unat (ai ca)) of
        None \<Rightarrow> None
      | Some e \<Rightarrow> Some (max (snd_cwnd tp - drop_bit 8 (snd_cwnd tp * md e)) 2))"

text \<open>
  A run of \<^verbatim>\<open>tcp_china_cong_avoid\<close> calls on one connection, each with its count of
  acknowledged segments and its window-limited flag.
\<close>

fun cong_avoid_seq ::
  "(tcp_sock \<Rightarrow> u32 \<Rightarrow> tcp_sock) \<Rightarrow> (u32 \<times> bool) list \<Rightarrow> tcp_sock \<times> china
     \<Rightarrow> (tcp_sock \<times> china) option" where
  "cong_avoid_seq tcp_slow_start [] s = Some s"
| "cong_avoid_seq tcp_slow_start ((acked, limited) # evs) s =
     (case tcp_china_cong_avoid tcp_slow_start limited (fst s) (snd s) acked of
        None \<Rightarrow> None
      | Some s' \<Rightarrow> cong_avoid_seq tcp_slow_start evs s')"

text \<open>
  The boundary relation the specification states between a window \<open>w\<close> and a table
  index \<open>i\<close>, written from its words: the index is in the table; for a window above the
  last threshold it is the last index; otherwise the window is at most the threshold at
  \<open>i\<close> and, when \<open>i > 0\<close>, above the threshold at \<open>i - 1\<close>.
\<close>

definition index_invariant :: "u32 \<Rightarrow> u32 \<Rightarrow> bool" where
  "index_invariant w i \<longleftrightarrow>
     unat i < HSTCP_AIMD_MAX \<and>
     (if cwnd (hstcp_aimd_vals ! (HSTCP_AIMD_MAX - 1)) < w then unat i = HSTCP_AIMD_MAX - 1
      else if i = 0 then w \<le> cwnd (hstcp_aimd_vals ! 0)
      else cwnd (hstcp_aimd_vals ! (unat i - 1)) < w \<and> w \<le> cwnd (hstcp_aimd_vals ! unat i))"

text \<open>
  A slow start to run closed examples with, written from the specification's words:
  the window grows by the number of newly acknowledged segments and never past the
  clamp. The kernel's \<^verbatim>\<open>tcp_slow_start\<close> is not part of this module; every general
  theorem below holds for any function in its place.
\<close>

definition slow_start_example :: "tcp_sock \<Rightarrow> u32 \<Rightarrow> tcp_sock" where
  "slow_start_example tp acked =
     tp\<lparr>snd_cwnd := min (snd_cwnd tp + acked) (snd_cwnd_clamp tp)\<rparr>"

section \<open>The growth table\<close>

lemma HSTCP_AIMD_MAX_eq: "HSTCP_AIMD_MAX = 72"
  by (simp add: HSTCP_AIMD_MAX_def hstcp_aimd_vals_def)

lemma cwnd_sorted: "sorted_wrt (<) (map cwnd hstcp_aimd_vals)"
  unfolding hstcp_aimd_vals_def
  by (simp add: sorted_wrt2 [OF transp_on_less] sorted_wrt1 del: sorted_wrt.simps)

lemma cwnd_strict_mono:
  assumes "i < j" "j < HSTCP_AIMD_MAX"
  shows "cwnd (hstcp_aimd_vals ! i) < cwnd (hstcp_aimd_vals ! j)"
proof -
  from assms have "map cwnd hstcp_aimd_vals ! i < map cwnd hstcp_aimd_vals ! j"
    by (intro sorted_wrt_nth_less [OF cwnd_sorted]) (simp_all add: HSTCP_AIMD_MAX_def)
  with assms show ?thesis by (simp add: HSTCP_AIMD_MAX_def)
qed

lemma md_all: "list_all (\<lambda>e. md e \<le> 128) hstcp_aimd_vals"
  by (simp add: hstcp_aimd_vals_def)

lemma md_le_128: "e \<in> set hstcp_aimd_vals \<Longrightarrow> md e \<le> 128"
  using md_all by (simp add: list_all_iff)

lemma aimd_val_Some: "i < HSTCP_AIMD_MAX \<Longrightarrow> aimd_val i = Some (hstcp_aimd_vals ! i)"
  by (simp add: aimd_val_def)

lemma aimd_val_md_le: "aimd_val i = Some e \<Longrightarrow> md e \<le> 128"
  by (auto simp: aimd_val_def HSTCP_AIMD_MAX_def intro: md_le_128 split: if_splits)

lemma nth_0: "hstcp_aimd_vals ! 0 = \<lparr>cwnd = 38, md = 128\<rparr>"
  by (simp add: hstcp_aimd_vals_def)

lemma nth_28: "hstcp_aimd_vals ! 28 = \<lparr>cwnd = 9991, md = 53\<rparr>"
  by (simp add: hstcp_aimd_vals_def)

lemma nth_29: "hstcp_aimd_vals ! 29 = \<lparr>cwnd = 10661, md = 52\<rparr>"
  by (simp add: hstcp_aimd_vals_def)

lemma nth_71: "hstcp_aimd_vals ! 71 = \<lparr>cwnd = 89053, md = 24\<rparr>"
  by (simp add: hstcp_aimd_vals_def)

lemma cwnd_mono:
  assumes "i \<le> j" "j < HSTCP_AIMD_MAX"
  shows "cwnd (hstcp_aimd_vals ! i) \<le> cwnd (hstcp_aimd_vals ! j)"
proof (cases "i = j")
  case True
  then show ?thesis by simp
next
  case False
  with assms have "i < j" by simp
  then show ?thesis using assms(2) by (intro less_imp_le cwnd_strict_mono)
qed

text \<open>
  Claim C9, as amended. The thresholds of the growth table are strictly increasing
  across adjacent entries: \<open>cwnd\<close> of entry \<open>i\<close> is below \<open>cwnd\<close> of entry \<open>i + 1\<close> for
  every \<open>i\<close> with both in the table. The table of the source has 72 entries
  (indices 0 to 71), not 73.
\<close>

theorem table_ordering_and_length:
  "(\<forall>i. Suc i < length hstcp_aimd_vals \<longrightarrow>
      cwnd (hstcp_aimd_vals ! i) < cwnd (hstcp_aimd_vals ! Suc i))
   \<and> length hstcp_aimd_vals = 72"
  using cwnd_strict_mono HSTCP_AIMD_MAX_eq by (simp add: HSTCP_AIMD_MAX_def)

theorem table_ordering_and_length_witness:
  "Suc 70 < length hstcp_aimd_vals
   \<and> cwnd (hstcp_aimd_vals ! 70) < cwnd (hstcp_aimd_vals ! 71)
   \<and> length hstcp_aimd_vals = 72"
proof -
  have len: "length hstcp_aimd_vals = 72"
    using table_ordering_and_length by (rule conjunct2)
  have "Suc 70 < length hstcp_aimd_vals \<longrightarrow>
      cwnd (hstcp_aimd_vals ! 70) < cwnd (hstcp_aimd_vals ! Suc 70)"
    using table_ordering_and_length by blast
  with len show ?thesis by simp
qed

text \<open>
  Claim C9 as stated says the table has exactly 73 entries. It does not.
\<close>

theorem table_length_counterexample: "length hstcp_aimd_vals \<noteq> 73"
  by (simp add: hstcp_aimd_vals_def)

section \<open>The RTT estimator\<close>

text \<open>
  Claim C10. The estimator never reads its acked-count argument: for any prior state
  and any RTT sample, two calls of \<open>tcp_china_rtt_calc\<close> that differ only in
  \<open>num_acked\<close> return the same state, so the same \<open>minrtt\<close> and \<open>artt\<close>.
\<close>

theorem rtt_calc_ignores_num_acked:
  "tcp_china_rtt_calc ca n1 rtt_us = tcp_china_rtt_calc ca n2 rtt_us"
  by (simp add: tcp_china_rtt_calc_def)

lemma rtt_plus_one: "(word_of_int (sint (x :: s32) + 1) :: u32) = x + 1"
  by simp

lemma rtt_calc_fields:
  "minrtt (tcp_china_rtt_calc ca n rtt_us) =
     (if rtt_us + 1 < minrtt ca \<or> minrtt ca = 0 then rtt_us + 1 else minrtt ca)"
  "artt (tcp_china_rtt_calc ca n rtt_us) =
     (if artt ca = 0 then rtt_us + 1
      else artt ca + (drop_bit 3 (rtt_us + 1) - drop_bit 3 (artt ca)))"
  "ai (tcp_china_rtt_calc ca n rtt_us) = ai ca"
  by (simp_all add: tcp_china_rtt_calc_def Let_def word_neq_0_conv [symmetric])

lemma smooth_nonzero:
  fixes a r :: u32
  assumes "a \<noteq> 0"
  shows "a + (drop_bit 3 r - drop_bit 3 a) \<noteq> 0"
proof -
  have ua: "0 < unat a" using assms by (simp add: unat_gt_0)
  have la: "unat a < 2 ^ 32" using unsigned_less [of a] by simp
  have lr: "unat r < 2 ^ 32" using unsigned_less [of r] by simp
  have da: "unat (drop_bit 3 a) = unat a div 8"
    unfolding unat_drop_bit_eq by (simp add: drop_bit_eq_div)
  have dr: "unat (drop_bit 3 r) = unat r div 8"
    unfolding unat_drop_bit_eq by (simp add: drop_bit_eq_div)
  have "drop_bit 3 a \<le> a" by (simp add: word_le_nat_alt da)
  then have s: "unat (a - drop_bit 3 a) = unat a - unat a div 8"
    by (simp add: unat_sub da)
  have "unat (a - drop_bit 3 a) + unat (drop_bit 3 r) < 2 ^ 32"
    unfolding s dr using la lr by simp
  then have "unat (a - drop_bit 3 a + drop_bit 3 r) = unat a - unat a div 8 + unat r div 8"
    by (simp add: unat_add_lem [THEN iffD1] s dr)
  moreover have "0 < unat a - unat a div 8" using ua by simp
  ultimately have "unat (a - drop_bit 3 a + drop_bit 3 r) \<noteq> 0" by simp
  then have nz: "a - drop_bit 3 a + drop_bit 3 r \<noteq> 0" by (simp add: unat_eq_0)
  have eq: "a + (drop_bit 3 r - drop_bit 3 a) = a - drop_bit 3 a + drop_bit 3 r"
    by simp
  show ?thesis unfolding eq by (rule nz)
qed

lemma sample_nonneg_uint:
  fixes x :: s32
  assumes "0 \<le> sint x"
  shows "uint (x + 1) = sint x + 1"
proof -
  have lt: "sint x < 2 ^ 31" using sint_lt [of x] by simp
  then have "sint x < 2 ^ 32" by simp
  with assms have "take_bit 32 (sint x) = sint x"
    by (simp add: take_bit_int_eq_self)
  then have u: "uint x = sint x" by (simp add: uint_sint)
  have "uint (x + 1) = (uint x + 1) mod 2 ^ 32"
    by (simp add: uint_word_ariths)
  also have "\<dots> = sint x + 1" using assms lt by (simp add: u)
  finally show ?thesis .
qed

lemma rtt_calc_fixed:
  assumes "minrtt c = v + 1" "artt c = v + 1"
  shows "minrtt (tcp_china_rtt_calc c k v) = v + 1 \<and> artt (tcp_china_rtt_calc c k v) = v + 1"
  using assms by (simp add: rtt_calc_fields)

lemma rtt_calc_fold_fixed:
  assumes "minrtt c = v + 1" "artt c = v + 1"
  shows "minrtt (fold (\<lambda>k c. tcp_china_rtt_calc c k v) ks c) = v + 1
       \<and> artt (fold (\<lambda>k c. tcp_china_rtt_calc c k v) ks c) = v + 1"
  using assms
proof (induction ks arbitrary: c)
  case Nil
  then show ?case by simp
next
  case (Cons k ks)
  from rtt_calc_fixed [OF Cons.prems, of k]
  show ?case by (simp add: Cons.IH)
qed

lemma rtt_calc_first:
  "minrtt (tcp_china_rtt_calc (tcp_china_reset ca) k v) = v + 1
   \<and> artt (tcp_china_rtt_calc (tcp_china_reset ca) k v) = v + 1"
  by (simp add: rtt_calc_fields tcp_china_reset_def)

text \<open>
  Claim C4, as amended. \<open>tcp_china_rtt_calc\<close> feeds the estimator the 32-bit value
  \<open>r = rtt_us + 1\<close> for every raw sample, a positive one as much as a zero or negative
  one; no sample is used as given. For every raw sample other than \<open>-1\<close>: \<open>r\<close> is not
  zero; \<open>minrtt\<close> becomes \<open>r\<close> when it was unset or above \<open>r\<close> and is kept otherwise;
  \<open>artt\<close> becomes \<open>r\<close> when it was unset and \<open>artt + ((r >> 3) - (artt >> 3))\<close>
  otherwise; both are nonzero after the call; and for a raw sample that is not negative
  \<open>r\<close> is the sample plus one as an integer. The raw sample \<open>-1\<close> is left out of the
  statement.
\<close>

theorem rtt_calc_sample_plus_one:
  assumes "rtt_us \<noteq> - 1"
  shows "let r = rtt_us + 1; ca' = tcp_china_rtt_calc ca n rtt_us in
      r \<noteq> 0
    \<and> minrtt ca' = (if minrtt ca = 0 \<or> r < minrtt ca then r else minrtt ca)
    \<and> artt ca' = (if artt ca = 0 then r else artt ca + (drop_bit 3 r - drop_bit 3 (artt ca)))
    \<and> minrtt ca' \<noteq> 0 \<and> artt ca' \<noteq> 0
    \<and> (0 \<le> sint rtt_us \<longrightarrow> uint r = sint rtt_us + 1)"
proof -
  have r: "rtt_us + 1 \<noteq> 0"
    using assms by (simp add: eq_neg_iff_add_eq_0 [symmetric])
  have a: "artt (tcp_china_rtt_calc ca n rtt_us) \<noteq> 0"
    using r smooth_nonzero [of "artt ca" "rtt_us + 1"] by (simp add: rtt_calc_fields)
  have m: "minrtt (tcp_china_rtt_calc ca n rtt_us) \<noteq> 0"
    using r by (simp add: rtt_calc_fields)
  show ?thesis
    using r a m sample_nonneg_uint [of rtt_us]
    by (auto simp add: Let_def rtt_calc_fields)
qed

theorem rtt_calc_sample_plus_one_witness:
  "(99 :: s32) \<noteq> - 1
   \<and> 0 \<le> sint (99 :: s32)
   \<and> minrtt (tcp_china_rtt_calc \<lparr>minrtt = 50, artt = 80, ai = 3\<rparr> 1 99) = 50
   \<and> artt (tcp_china_rtt_calc \<lparr>minrtt = 50, artt = 80, ai = 3\<rparr> 1 99) = 82
   \<and> uint (99 + 1 :: u32) = sint (99 :: s32) + 1"
proof -
  have h: "(99 :: s32) \<noteq> - 1" by simp
  show ?thesis
    using h rtt_calc_sample_plus_one [OF h, of "\<lparr>minrtt = 50, artt = 80, ai = 3\<rparr>" 1]
    by (simp add: Let_def)
qed

text \<open>
  Claim C4 as stated says a positive raw sample is used as given and the stored values
  are never zero once a sample is recorded. On an unset estimator the sample 5 stores
  6, not 5; and the sample \<open>-1\<close> stores zero in \<open>minrtt\<close> (over a set value) and in
  \<open>artt\<close> (when unset).
\<close>

theorem rtt_calc_positive_counterexample:
  "minrtt (tcp_china_rtt_calc \<lparr>minrtt = 0, artt = 0, ai = 0\<rparr> 1 5) \<noteq> 5
   \<and> artt (tcp_china_rtt_calc \<lparr>minrtt = 0, artt = 0, ai = 0\<rparr> 1 5) \<noteq> 5
   \<and> minrtt (tcp_china_rtt_calc \<lparr>minrtt = 50, artt = 80, ai = 0\<rparr> 1 (- 1)) = 0
   \<and> artt (tcp_china_rtt_calc \<lparr>minrtt = 0, artt = 0, ai = 0\<rparr> 1 (- 1)) = 0"
  by (simp add: tcp_china_rtt_calc_def)

text \<open>
  Claim C5, as amended. From an unset estimator (after \<open>tcp_china_reset\<close>), one or more
  calls of \<open>tcp_china_rtt_calc\<close> with the same raw sample \<open>v\<close>, whatever their acked
  counts, leave \<open>artt\<close> and \<open>minrtt\<close> at \<open>v + 1\<close> (32-bit), which for a sample that is
  not negative is the integer \<open>v + 1\<close>: the average sits at \<open>v + 1\<close> from the first call
  on and never moves to \<open>v\<close>. In particular one call with sample 100 and acked count 1
  gives \<open>minrtt = 101\<close> and \<open>artt = 101\<close>.
\<close>

theorem rtt_constant_samples:
  "let ca' = fold (\<lambda>k c. tcp_china_rtt_calc c k v) (k # ks) (tcp_china_reset ca) in
     artt ca' = v + 1 \<and> minrtt ca' = v + 1
     \<and> (0 \<le> sint v \<longrightarrow> uint (artt ca') = sint v + 1)
     \<and> artt (tcp_china_rtt_calc (tcp_china_reset ca) 1 100) = 101
     \<and> minrtt (tcp_china_rtt_calc (tcp_china_reset ca) 1 100) = 101"
proof -
  let ?c1 = "tcp_china_rtt_calc (tcp_china_reset ca) k v"
  have f: "minrtt ?c1 = v + 1" "artt ?c1 = v + 1"
    using rtt_calc_first [of ca k v] by simp_all
  have "minrtt (fold (\<lambda>k c. tcp_china_rtt_calc c k v) ks ?c1) = v + 1
      \<and> artt (fold (\<lambda>k c. tcp_china_rtt_calc c k v) ks ?c1) = v + 1"
    using f by (rule rtt_calc_fold_fixed)
  moreover have "artt (tcp_china_rtt_calc (tcp_china_reset ca) 1 100) = 101
      \<and> minrtt (tcp_china_rtt_calc (tcp_china_reset ca) 1 100) = 101"
    using rtt_calc_first [of ca 1 100] by simp
  ultimately show ?thesis
    using sample_nonneg_uint [of v] by (simp add: Let_def)
qed

theorem rtt_constant_samples_witness:
  "0 \<le> sint (100 :: s32)
   \<and> artt (fold (\<lambda>k c. tcp_china_rtt_calc c k 100) [1, 1, 1]
        (tcp_china_reset \<lparr>minrtt = 7, artt = 9, ai = 2\<rparr>)) = 101
   \<and> uint (artt (fold (\<lambda>k c. tcp_china_rtt_calc c k 100) [1, 1, 1]
        (tcp_china_reset \<lparr>minrtt = 7, artt = 9, ai = 2\<rparr>))) = 101"
proof -
  have h: "0 \<le> sint (100 :: s32)" by simp
  note t = rtt_constant_samples [of 100 1 "[1, 1]" "\<lparr>minrtt = 7, artt = 9, ai = 2\<rparr>"]
  from t have a: "artt (fold (\<lambda>k c. tcp_china_rtt_calc c k 100) [1, 1, 1]
        (tcp_china_reset \<lparr>minrtt = 7, artt = 9, ai = 2\<rparr>)) = 100 + 1"
    unfolding Let_def by (rule conjunct1)
  from t h have "uint (artt (fold (\<lambda>k c. tcp_china_rtt_calc c k 100) [1, 1, 1]
        (tcp_china_reset \<lparr>minrtt = 7, artt = 9, ai = 2\<rparr>))) = sint (100 :: s32) + 1"
    unfolding Let_def by blast
  with a h show ?thesis by simp
qed

text \<open>
  Claim C5 as stated gives \<open>minrtt = 100\<close> and \<open>artt = 100\<close> after one call with sample
  100 on an unset estimator, and an average that converges to the sample. Neither field
  is 100 after that call, and the average is not 100 after eight such calls either.
\<close>

theorem rtt_first_sample_counterexample:
  "minrtt (tcp_china_rtt_calc (tcp_china_reset \<lparr>minrtt = 0, artt = 0, ai = 0\<rparr>) 1 100) \<noteq> 100
   \<and> artt (tcp_china_rtt_calc (tcp_china_reset \<lparr>minrtt = 0, artt = 0, ai = 0\<rparr>) 1 100) \<noteq> 100
   \<and> artt (fold (\<lambda>k c. tcp_china_rtt_calc c k 100) [1, 1, 1, 1, 1, 1, 1, 1]
        (tcp_china_reset \<lparr>minrtt = 0, artt = 0, ai = 0\<rparr>)) \<noteq> 100"
  by (simp add: tcp_china_rtt_calc_def tcp_china_reset_def)

section \<open>The window controller\<close>

text \<open>
  Claim C3. When the sender is not window-limited, \<open>tcp_china_cong_avoid\<close> returns
  the socket and the private state exactly as they were, whatever the prior state and
  the count of acknowledged segments: window, slow-start threshold, counter, clamp,
  table index and both RTT fields.
\<close>

theorem cong_avoid_not_limited_noop:
  "tcp_china_cong_avoid tcp_slow_start False tp ca acked = Some (tp, ca)"
  by (simp add: tcp_china_cong_avoid_def)

section \<open>Initialisation and the multiplicative decrease\<close>

lemma mul_md_no_overflow:
  assumes "unat w \<le> 0xffffffff div 128" "m \<le> (128::u32)"
  shows "unat w * unat m < 2 ^ 32"
proof -
  from assms(2) have "unat m \<le> 128" by (simp add: word_le_nat_alt)
  then have "unat w * unat m \<le> unat w * 128" by simp
  also from assms(1) have "\<dots> \<le> (0xffffffff div 128) * 128" by simp
  finally show ?thesis by simp
qed

lemma decrease_nat:
  assumes "unat w \<le> 0xffffffff div 128" "m \<le> (128::u32)"
  shows "unat (w - drop_bit 8 (w * m)) = unat w - unat w * unat m div 256"
proof -
  have prod: "unat (w * m) = unat w * unat m"
    using mul_md_no_overflow [OF assms] by (simp add: unat_mult_lem [THEN iffD1])
  have d: "unat (drop_bit 8 (w * m)) = unat w * unat m div 256"
    unfolding unat_drop_bit_eq prod by (simp add: drop_bit_eq_div)
  from assms(2) have "unat m \<le> 128" by (simp add: word_le_nat_alt)
  then have "unat w * unat m \<le> unat w * 256" by simp
  then have "unat w * unat m div 256 \<le> unat w * 256 div 256" by (rule div_le_mono)
  then have "unat w * unat m div 256 \<le> unat w" by simp
  with d have "drop_bit 8 (w * m) \<le> w" by (simp add: word_le_nat_alt)
  then show ?thesis by (simp add: unat_sub d)
qed

text \<open>
  Claim C7. \<open>tcp_china_init\<close> sets the table index to 0, clears both RTT fields and
  stores as clamp the minimum of the caller's clamp and \<open>0xffffffff div 128\<close>, where 128
  is the largest \<open>md\<close> of the table (that of entry 0). So the stored clamp is at most
  \<open>0xffffffff div 128\<close>, and for every window not above the stored clamp and every table
  entry the product of the window and the entry's \<open>md\<close>, taken in the naturals, stays
  below \<open>2 ^ 32\<close>: the 32-bit multiplication of the decrease does not wrap.
\<close>

theorem init_clamp_overflow_safe:
  "ai (snd (tcp_china_init tp ca)) = 0
   \<and> minrtt (snd (tcp_china_init tp ca)) = 0
   \<and> artt (snd (tcp_china_init tp ca)) = 0
   \<and> snd_cwnd_clamp (fst (tcp_china_init tp ca)) = min (snd_cwnd_clamp tp) (0xffffffff div 128)
   \<and> unat (snd_cwnd_clamp (fst (tcp_china_init tp ca))) \<le> 0xffffffff div 128
   \<and> (\<forall>e \<in> set hstcp_aimd_vals. md e \<le> md (hstcp_aimd_vals ! 0))
   \<and> md (hstcp_aimd_vals ! 0) = 128
   \<and> (\<forall>w e. w \<le> snd_cwnd_clamp (fst (tcp_china_init tp ca)) \<longrightarrow> e \<in> set hstcp_aimd_vals
        \<longrightarrow> unat w * unat (md e) < 2 ^ 32)"
proof -
  let ?c = "snd_cwnd_clamp (fst (tcp_china_init tp ca))"
  have c: "?c = min (snd_cwnd_clamp tp) (0xffffffff div 128)"
    by (simp add: tcp_china_init_def)
  have "?c \<le> 0xffffffff div 128" unfolding c by simp
  then have cle: "unat ?c \<le> 0xffffffff div 128"
    by (simp add: word_le_nat_alt)
  have m0: "md (hstcp_aimd_vals ! 0) = 128"
    by (simp add: hstcp_aimd_vals_def)
  have safe: "unat w * unat (md e) < 2 ^ 32"
    if "w \<le> ?c" "e \<in> set hstcp_aimd_vals" for w e
  proof -
    from that(1) cle have "unat w \<le> 0xffffffff div 128"
      by (simp add: word_le_nat_alt)
    then show ?thesis using md_le_128 [OF that(2)] by (rule mul_md_no_overflow)
  qed
  show ?thesis
    using c cle m0 safe md_le_128
    by (simp add: tcp_china_init_def tcp_china_reset_def)
qed

theorem init_clamp_overflow_safe_witness:
  "ai (snd (tcp_china_init
        \<lparr>snd_cwnd = 10, snd_ssthresh = 0x7fffffff, snd_cwnd_cnt = 0, snd_cwnd_clamp = 0xffffffff\<rparr>
        \<lparr>minrtt = 7, artt = 9, ai = 5\<rparr>)) = 0
   \<and> snd_cwnd_clamp (fst (tcp_china_init
        \<lparr>snd_cwnd = 10, snd_ssthresh = 0x7fffffff, snd_cwnd_cnt = 0, snd_cwnd_clamp = 0xffffffff\<rparr>
        \<lparr>minrtt = 7, artt = 9, ai = 5\<rparr>)) = 33554431
   \<and> hstcp_aimd_vals ! 0 \<in> set hstcp_aimd_vals
   \<and> md (hstcp_aimd_vals ! 0) \<le> md (hstcp_aimd_vals ! 0)
   \<and> unat (33554431 :: u32) * unat (md (hstcp_aimd_vals ! 0)) < 2 ^ 32"
proof -
  let ?tp = "\<lparr>snd_cwnd = 10, snd_ssthresh = 0x7fffffff, snd_cwnd_cnt = 0,
              snd_cwnd_clamp = 0xffffffff\<rparr>"
  let ?ca = "\<lparr>minrtt = 7, artt = 9, ai = 5\<rparr>"
  note t = init_clamp_overflow_safe [of ?tp ?ca]
  have c: "snd_cwnd_clamp (fst (tcp_china_init ?tp ?ca)) = 33554431"
    using t by simp
  have mem: "hstcp_aimd_vals ! 0 \<in> set hstcp_aimd_vals"
    by (rule nth_mem) (simp add: hstcp_aimd_vals_def)
  have le: "(33554431 :: u32) \<le> snd_cwnd_clamp (fst (tcp_china_init ?tp ?ca))"
    by (simp add: c)
  from t have "\<forall>w e. w \<le> snd_cwnd_clamp (fst (tcp_china_init ?tp ?ca)) \<longrightarrow>
      e \<in> set hstcp_aimd_vals \<longrightarrow> unat w * unat (md e) < 2 ^ 32"
    by blast
  with le mem have "unat (33554431 :: u32) * unat (md (hstcp_aimd_vals ! 0)) < 2 ^ 32"
    by blast
  moreover from t have "ai (snd (tcp_china_init ?tp ?ca)) = 0" by blast
  ultimately show ?thesis using c mem by simp
qed

text \<open>
  Claim C1. For every socket and private state whose table index is in the table,
  \<open>tcp_china_ssthresh\<close> returns the maximum of 2 and the window minus
  \<open>(window * md) >> 8\<close>, in 32-bit arithmetic, with \<open>md\<close> read at the stored index
  \<open>ai\<close> as it is: nothing re-derives the index from the window. The value returned is
  never below 2. For a window within the clamp of \<open>tcp_china_init\<close> nothing wraps, and
  the value is the same formula over the naturals.
\<close>

theorem ssthresh_formula:
  assumes "unat (ai ca) < HSTCP_AIMD_MAX"
  shows "\<exists>r. tcp_china_ssthresh tp ca = Some r
     \<and> r = max (snd_cwnd tp
               - drop_bit 8 (snd_cwnd tp * md (hstcp_aimd_vals ! unat (ai ca)))) 2
     \<and> 2 \<le> r
     \<and> (unat (snd_cwnd tp) \<le> 0xffffffff div 128 \<longrightarrow>
          unat r = max (unat (snd_cwnd tp)
                        - unat (snd_cwnd tp) * unat (md (hstcp_aimd_vals ! unat (ai ca))) div 256) 2)"
proof -
  let ?e = "hstcp_aimd_vals ! unat (ai ca)"
  let ?w = "snd_cwnd tp"
  let ?r = "max (?w - drop_bit 8 (?w * md ?e)) 2"
  have e: "aimd_val (unat (ai ca)) = Some ?e"
    using assms by (rule aimd_val_Some)
  have r: "tcp_china_ssthresh tp ca = Some ?r"
    by (simp add: tcp_china_ssthresh_def e)
  have ge: "2 \<le> ?r" by simp
  have nat: "unat ?r = max (unat ?w - unat ?w * unat (md ?e) div 256) 2"
    if "unat ?w \<le> 0xffffffff div 128"
  proof -
    have "unat (?w - drop_bit 8 (?w * md ?e)) = unat ?w - unat ?w * unat (md ?e) div 256"
      using that aimd_val_md_le [OF e] by (rule decrease_nat)
    then show ?thesis
      by (simp add: max_def word_le_nat_alt)
  qed
  from r ge nat show ?thesis by blast
qed

theorem ssthresh_formula_witness:
  "unat (ai \<lparr>minrtt = 0, artt = 0, ai = 0\<rparr>) < HSTCP_AIMD_MAX
   \<and> unat (snd_cwnd
        \<lparr>snd_cwnd = 10000, snd_ssthresh = 5000, snd_cwnd_cnt = 0, snd_cwnd_clamp = 33554431\<rparr>)
       \<le> 0xffffffff div 128
   \<and> tcp_china_ssthresh
        \<lparr>snd_cwnd = 10000, snd_ssthresh = 5000, snd_cwnd_cnt = 0, snd_cwnd_clamp = 33554431\<rparr>
        \<lparr>minrtt = 0, artt = 0, ai = 0\<rparr> = Some 5000"
proof -
  have v: "unat (ai \<lparr>minrtt = 0, artt = 0, ai = 0\<rparr>) < HSTCP_AIMD_MAX"
    by (simp add: HSTCP_AIMD_MAX_eq)
  have m: "md (hstcp_aimd_vals ! 0) = 128"
    by (simp add: hstcp_aimd_vals_def)
  show ?thesis
    using v ssthresh_formula [OF v,
      of "\<lparr>snd_cwnd = 10000, snd_ssthresh = 5000, snd_cwnd_cnt = 0, snd_cwnd_clamp = 33554431\<rparr>"]
    by (simp add: m)
qed

text \<open>
  Claim C8, as amended. For the window 10000 the index that satisfies the boundary
  relation is 29, the entry with threshold 10661 (the entry before it has threshold
  9991); its \<open>md\<close> is 52, and \<open>tcp_china_ssthresh\<close> returns
  \<open>10000 - ((10000 * 52) >> 8) = 7969\<close>.
\<close>

theorem ssthresh_at_10000:
  assumes "index_invariant 10000 (ai ca)" and "snd_cwnd tp = 10000"
  shows "ai ca = 29 \<and> md (hstcp_aimd_vals ! unat (ai ca)) = 52
         \<and> tcp_china_ssthresh tp ca = Some 7969"
proof -
  let ?n = "unat (ai ca)"
  from assms(1) have v: "?n < HSTCP_AIMD_MAX"
    by (simp add: index_invariant_def)
  from assms(1) have hi: "(10000::u32) \<le> cwnd (hstcp_aimd_vals ! ?n)"
    by (auto simp: index_invariant_def HSTCP_AIMD_MAX_eq nth_71 unat_eq_0 nth_29 nth_28
        split: if_splits dest: cwnd_mono)
  have ub: "?n \<ge> 29"
  proof (rule ccontr)
    assume "\<not> 29 \<le> ?n"
    then have "?n \<le> 28" by simp
    then have "cwnd (hstcp_aimd_vals ! ?n) \<le> cwnd (hstcp_aimd_vals ! 28)"
      by (rule cwnd_mono) (simp add: HSTCP_AIMD_MAX_eq)
    with hi have "(10000::u32) \<le> cwnd (hstcp_aimd_vals ! 28)" by (rule order_trans)
    then show False by (simp add: nth_28)
  qed
  then have nz: "ai ca \<noteq> 0" by auto
  with assms(1) have lo: "cwnd (hstcp_aimd_vals ! (?n - 1)) < 10000"
    by (simp add: index_invariant_def HSTCP_AIMD_MAX_eq nth_71)
  have "?n \<le> 29"
  proof (rule ccontr)
    assume "\<not> ?n \<le> 29"
    then have "29 \<le> ?n - 1" by simp
    then have "cwnd (hstcp_aimd_vals ! 29) \<le> cwnd (hstcp_aimd_vals ! (?n - 1))"
      using v by (intro cwnd_mono) simp_all
    then have "cwnd (hstcp_aimd_vals ! 29) < 10000" using lo by (rule le_less_trans)
    then show False by (simp add: nth_29)
  qed
  with ub have "?n = 29" by simp
  then have i: "ai ca = 29" by (simp add: word_unat_eq_iff)
  have "tcp_china_ssthresh tp ca = Some 7969"
    by (simp add: tcp_china_ssthresh_def aimd_val_def HSTCP_AIMD_MAX_eq i nth_29 assms(2))
  with i show ?thesis by (simp add: nth_29)
qed

theorem ssthresh_at_10000_witness:
  "index_invariant 10000 (ai \<lparr>minrtt = 0, artt = 0, ai = 29\<rparr>)
   \<and> snd_cwnd
        \<lparr>snd_cwnd = 10000, snd_ssthresh = 5000, snd_cwnd_cnt = 0, snd_cwnd_clamp = 33554431\<rparr>
       = 10000
   \<and> tcp_china_ssthresh
        \<lparr>snd_cwnd = 10000, snd_ssthresh = 5000, snd_cwnd_cnt = 0, snd_cwnd_clamp = 33554431\<rparr>
        \<lparr>minrtt = 0, artt = 0, ai = 29\<rparr> = Some 7969"
proof -
  have inv: "index_invariant 10000 (ai \<lparr>minrtt = 0, artt = 0, ai = 29\<rparr>)"
    by (simp add: index_invariant_def HSTCP_AIMD_MAX_eq nth_71 nth_28 nth_29)
  show ?thesis
    using inv ssthresh_at_10000 [OF inv,
      of "\<lparr>snd_cwnd = 10000, snd_ssthresh = 5000, snd_cwnd_cnt = 0, snd_cwnd_clamp = 33554431\<rparr>"]
    by simp
qed

text \<open>
  Claim C8 as stated takes the decrease factor of that entry to be 53 and the returned
  value to be \<open>10000 - ((10000 * 53) >> 8)\<close>. At index 29, which satisfies the boundary
  relation for 10000, the factor is not 53 and the returned value differs.
\<close>

theorem ssthresh_at_10000_counterexample:
  "index_invariant 10000 29
   \<and> md (hstcp_aimd_vals ! 29) \<noteq> 53
   \<and> tcp_china_ssthresh
        \<lparr>snd_cwnd = 10000, snd_ssthresh = 5000, snd_cwnd_cnt = 0, snd_cwnd_clamp = 33554431\<rparr>
        \<lparr>minrtt = 0, artt = 0, ai = 29\<rparr> \<noteq> Some (10000 - drop_bit 8 (10000 * 53))"
  by (simp add: index_invariant_def HSTCP_AIMD_MAX_eq nth_71 nth_28 nth_29
      tcp_china_ssthresh_def aimd_val_def)

subsection \<open>The two index loops\<close>

lemma unat_succ_in_table:
  fixes i :: u32
  assumes "unat i < HSTCP_AIMD_MAX - 1"
  shows "unat (i + 1) = unat i + 1"
proof -
  from assms have "unat i + unat (1 :: u32) < 2 ^ 32"
    by (simp add: HSTCP_AIMD_MAX_eq)
  then show ?thesis
    by (simp add: unat_add_lem [THEN iffD1])
qed

lemma unat_pred:
  fixes i :: u32
  assumes "i \<noteq> 0"
  shows "unat (i - 1) = unat i - 1"
  using assms by (simp add: unat_minus_one)

lemma advance_index_for_spec:
  assumes "unat i < HSTCP_AIMD_MAX"
  shows "\<exists>j. advance_index_for w i = Some j \<and> unat i \<le> unat j \<and> unat j < HSTCP_AIMD_MAX
     \<and> (w \<le> cwnd (hstcp_aimd_vals ! unat j) \<or> unat j = HSTCP_AIMD_MAX - 1)
     \<and> (\<forall>k. unat i \<le> k \<and> k < unat j \<longrightarrow> cwnd (hstcp_aimd_vals ! k) < w)"
  using assms
proof (induction w i rule: advance_index_for.induct)
  case (1 w i)
  let ?e = "hstcp_aimd_vals ! unat i"
  have e: "aimd_val (unat i) = Some ?e"
    using "1.prems" by (rule aimd_val_Some)
  show ?case
  proof (cases "cwnd ?e < w \<and> unat i < HSTCP_AIMD_MAX - 1")
    case True
    then have u: "unat (i + 1) = unat i + 1"
      by (simp add: unat_succ_in_table)
    with True have v: "unat (i + 1) < HSTCP_AIMD_MAX" by auto
    from "1.IH" [OF e True v] obtain j where
      j: "advance_index_for w (i + 1) = Some j" "unat (i + 1) \<le> unat j"
         "unat j < HSTCP_AIMD_MAX"
         "w \<le> cwnd (hstcp_aimd_vals ! unat j) \<or> unat j = HSTCP_AIMD_MAX - 1"
         "\<forall>k. unat (i + 1) \<le> k \<and> k < unat j \<longrightarrow> cwnd (hstcp_aimd_vals ! k) < w"
      by blast
    have r: "advance_index_for w i = Some j"
      using e True j(1) by (subst advance_index_for.simps) simp
    have below: "cwnd (hstcp_aimd_vals ! k) < w" if "unat i \<le> k \<and> k < unat j" for k
    proof (cases "k = unat i")
      case True
      with \<open>cwnd ?e < w \<and> unat i < HSTCP_AIMD_MAX - 1\<close> show ?thesis by simp
    next
      case False
      with that u have "unat (i + 1) \<le> k \<and> k < unat j" by auto
      with j(5) show ?thesis by blast
    qed
    from j(2) u have "unat i \<le> unat j" by simp
    with r j(3,4) below show ?thesis by blast
  next
    case False
    have r: "advance_index_for w i = Some i"
      using e False by (subst advance_index_for.simps) auto
    from False "1.prems"
    have "w \<le> cwnd ?e \<or> unat i = HSTCP_AIMD_MAX - 1" by auto
    with r "1.prems" show ?thesis by auto
  qed
qed

lemma retreat_index_for_spec:
  assumes "unat i < HSTCP_AIMD_MAX"
  shows "\<exists>j. retreat_index_for w i = Some j \<and> unat j \<le> unat i
     \<and> (j = 0 \<or> cwnd (hstcp_aimd_vals ! (unat j - 1)) < w)
     \<and> (\<forall>k. unat j \<le> k \<and> k < unat i \<longrightarrow> w \<le> cwnd (hstcp_aimd_vals ! k))"
  using assms
proof (induction w i rule: retreat_index_for.induct)
  case (1 w i)
  show ?case
  proof (cases "i = 0")
    case True
    then have "retreat_index_for w i = Some i"
      by (subst retreat_index_for.simps) simp
    with True show ?thesis by simp
  next
    case nz: False
    then have u: "unat (i - 1) = unat i - 1" by (rule unat_pred)
    from nz have pos: "0 < unat i" by (simp add: unat_gt_0)
    let ?e = "hstcp_aimd_vals ! unat (i - 1)"
    from u "1.prems" have v: "unat (i - 1) < HSTCP_AIMD_MAX" by simp
    then have e: "aimd_val (unat (i - 1)) = Some ?e" by (rule aimd_val_Some)
    show ?thesis
    proof (cases "w \<le> cwnd ?e")
      case True
      from "1.IH" [OF nz e True v] obtain j where
        j: "retreat_index_for w (i - 1) = Some j" "unat j \<le> unat (i - 1)"
           "j = 0 \<or> cwnd (hstcp_aimd_vals ! (unat j - 1)) < w"
           "\<forall>k. unat j \<le> k \<and> k < unat (i - 1) \<longrightarrow> w \<le> cwnd (hstcp_aimd_vals ! k)"
        by blast
      have r: "retreat_index_for w i = Some j"
        using nz e True j(1) by (subst retreat_index_for.simps) simp
      have above: "w \<le> cwnd (hstcp_aimd_vals ! k)" if "unat j \<le> k \<and> k < unat i" for k
      proof (cases "k = unat (i - 1)")
        case True
        with \<open>w \<le> cwnd ?e\<close> show ?thesis by simp
      next
        case False
        with that u have "unat j \<le> k \<and> k < unat (i - 1)" by auto
        with j(4) show ?thesis by blast
      qed
      from j(2) u have "unat j \<le> unat i" by simp
      with r j(3) above show ?thesis by blast
    next
      case False
      have r: "retreat_index_for w i = Some i"
        using nz e False by (subst retreat_index_for.simps) simp
      from False have "cwnd (hstcp_aimd_vals ! (unat i - 1)) < w"
        by (simp add: u not_le)
      with r show ?thesis by auto
    qed
  qed
qed


lemma last_threshold:
  assumes "n < HSTCP_AIMD_MAX"
  shows "cwnd (hstcp_aimd_vals ! n) \<le> cwnd (hstcp_aimd_vals ! (HSTCP_AIMD_MAX - 1))"
  using assms by (intro cwnd_mono) (simp_all add: HSTCP_AIMD_MAX_eq)

lemma update_aimd_spec:
  assumes v: "unat i < HSTCP_AIMD_MAX"
  shows "\<exists>j. update_aimd w i = Some j \<and> index_invariant w j"
proof -
  let ?e = "hstcp_aimd_vals ! unat i"
  let ?last = "cwnd (hstcp_aimd_vals ! (HSTCP_AIMD_MAX - 1))"
  have e: "aimd_val (unat i) = Some ?e"
    using v by (rule aimd_val_Some)
  consider (adv) "cwnd ?e < w"
    | (ret) "w \<le> cwnd ?e" "i \<noteq> 0" "w \<le> cwnd (hstcp_aimd_vals ! unat (i - 1))"
    | (keep) "w \<le> cwnd ?e" "i = 0 \<or> cwnd (hstcp_aimd_vals ! unat (i - 1)) < w"
    by (meson not_le)
  then show ?thesis
  proof cases
    case adv
    from advance_index_for_spec [OF v, of w] obtain j where
      j: "advance_index_for w i = Some j" "unat i \<le> unat j" "unat j < HSTCP_AIMD_MAX"
         "w \<le> cwnd (hstcp_aimd_vals ! unat j) \<or> unat j = HSTCP_AIMD_MAX - 1"
         "\<forall>k. unat i \<le> k \<and> k < unat j \<longrightarrow> cwnd (hstcp_aimd_vals ! k) < w"
      by blast
    have r: "update_aimd w i = Some j"
      using adv j(1) by (simp add: update_aimd_def e)
    have "index_invariant w j"
    proof (cases "?last < w")
      case True
      have "unat j = HSTCP_AIMD_MAX - 1"
      proof (rule ccontr)
        assume "unat j \<noteq> HSTCP_AIMD_MAX - 1"
        with j(4) have "w \<le> cwnd (hstcp_aimd_vals ! unat j)" by simp
        also have "\<dots> \<le> ?last" using j(3) by (rule last_threshold)
        finally show False using True by simp
      qed
      with True j(3) show ?thesis by (simp add: index_invariant_def)
    next
      case False
      then have le_last: "w \<le> ?last" by simp
      with j(4) have hi: "w \<le> cwnd (hstcp_aimd_vals ! unat j)" by auto
      with adv have "unat j \<noteq> unat i" by auto
      with j(2) have gt: "unat i < unat j" by simp
      then have "unat i \<le> unat j - 1 \<and> unat j - 1 < unat j" by simp
      with j(5) have lo: "cwnd (hstcp_aimd_vals ! (unat j - 1)) < w" by blast
      from gt have "j \<noteq> 0" by auto
      with False j(3) hi lo show ?thesis by (simp add: index_invariant_def)
    qed
    with r show ?thesis by blast
  next
    case ret
    from ret(2) have u: "unat (i - 1) = unat i - 1" by (rule unat_pred)
    with v have "unat (i - 1) < HSTCP_AIMD_MAX" by simp
    then have e': "aimd_val (unat (i - 1)) = Some (hstcp_aimd_vals ! unat (i - 1))"
      by (rule aimd_val_Some)
    from retreat_index_for_spec [OF v, of w] obtain j where
      j: "retreat_index_for w i = Some j" "unat j \<le> unat i"
         "j = 0 \<or> cwnd (hstcp_aimd_vals ! (unat j - 1)) < w"
         "\<forall>k. unat j \<le> k \<and> k < unat i \<longrightarrow> w \<le> cwnd (hstcp_aimd_vals ! k)"
      by blast
    from ret(1) have n: "\<not> cwnd ?e < w" by simp
    have r: "update_aimd w i = Some j"
      using n ret j(1) by (simp add: update_aimd_def e e')
    from j(2) v have vj: "unat j < HSTCP_AIMD_MAX" by simp
    have hi: "w \<le> cwnd (hstcp_aimd_vals ! unat j)"
    proof (cases "unat j = unat i")
      case True
      with ret(1) show ?thesis by simp
    next
      case False
      with j(2) have "unat j \<le> unat j \<and> unat j < unat i" by simp
      with j(4) show ?thesis by blast
    qed
    also have "\<dots> \<le> ?last" using vj by (rule last_threshold)
    finally have "\<not> ?last < w" by simp
    with vj hi j(3) have "index_invariant w j"
      by (auto simp add: index_invariant_def)
    with r show ?thesis by blast
  next
    case keep
    from keep(1) have n: "\<not> cwnd ?e < w" by simp
    have r: "update_aimd w i = Some i"
    proof (cases "i = 0")
      case True
      with n show ?thesis
        by (simp add: update_aimd_def aimd_val_def HSTCP_AIMD_MAX_eq)
    next
      case False
      then have "unat (i - 1) = unat i - 1" by (rule unat_pred)
      with v have "unat (i - 1) < HSTCP_AIMD_MAX" by simp
      then have "aimd_val (unat (i - 1)) = Some (hstcp_aimd_vals ! unat (i - 1))"
        by (rule aimd_val_Some)
      moreover from False keep(2)
      have "\<not> w \<le> cwnd (hstcp_aimd_vals ! unat (i - 1))" by simp
      ultimately show ?thesis using False n by (simp add: update_aimd_def e)
    qed
    have "w \<le> ?last"
      using keep(1) last_threshold [OF v] by (rule order_trans)
    then have ns: "\<not> ?last < w" by simp
    have "index_invariant w i"
    proof (cases "i = 0")
      case True
      with keep(1) ns v show ?thesis by (simp add: index_invariant_def)
    next
      case False
      then have "unat (i - 1) = unat i - 1" by (rule unat_pred)
      with False keep ns v show ?thesis by (simp add: index_invariant_def)
    qed
    with r show ?thesis by blast
  qed
qed

lemma additive_increase_window:
  "snd_cwnd (additive_increase tp i) = snd_cwnd tp
   \<or> snd_cwnd (additive_increase tp i) = snd_cwnd tp + 1"
  by (simp add: additive_increase_def Let_def)

lemma cong_avoid_keeps_index_valid:
  assumes "unat (ai ca) < HSTCP_AIMD_MAX"
  shows "\<exists>tp' ca'. tcp_china_cong_avoid ss limited tp ca acked = Some (tp', ca')
     \<and> unat (ai ca') < HSTCP_AIMD_MAX"
proof (cases "limited \<and> snd_ssthresh tp < snd_cwnd tp")
  case True
  from update_aimd_spec [OF assms, of "snd_cwnd tp"] obtain j where
    j: "update_aimd (snd_cwnd tp) (ai ca) = Some j" "index_invariant (snd_cwnd tp) j"
    by blast
  from j(2) have "unat j < HSTCP_AIMD_MAX" by (simp add: index_invariant_def)
  moreover from True have "\<not> snd_cwnd tp \<le> snd_ssthresh tp" by (auto simp: not_le)
  ultimately show ?thesis using True j(1)
    by (simp add: tcp_china_cong_avoid_def)
next
  case False
  with assms show ?thesis
    by (auto simp add: tcp_china_cong_avoid_def not_le)
qed

lemma cong_avoid_seq_keeps_index_valid:
  assumes "unat (ai (snd s)) < HSTCP_AIMD_MAX"
  shows "\<exists>s'. cong_avoid_seq ss evs s = Some s' \<and> unat (ai (snd s')) < HSTCP_AIMD_MAX"
  using assms
proof (induction evs arbitrary: s)
  case Nil
  then show ?case by simp
next
  case (Cons ev evs)
  obtain acked limited where ev: "ev = (acked, limited)" by (cases ev)
  from cong_avoid_keeps_index_valid [OF Cons.prems, of ss limited "fst s" acked]
  obtain tp' ca' where
    s': "tcp_china_cong_avoid ss limited (fst s) (snd s) acked = Some (tp', ca')"
        "unat (ai ca') < HSTCP_AIMD_MAX"
    by blast
  from s'(2) have "unat (ai (snd (tp', ca'))) < HSTCP_AIMD_MAX" by simp
  from Cons.IH [OF this] show ?case by (simp add: ev s'(1))
qed

lemma unat_window_succ:
  fixes w c :: u32
  assumes "w < c"
  shows "unat (w + 1) = unat w + 1"
proof -
  from assms have "unat w < unat c" by (simp add: word_less_nat_alt)
  moreover have "unat c < 2 ^ 32" using unsigned_less [of c] by simp
  ultimately have "unat w + unat (1 :: u32) < 2 ^ 32" by simp
  then show ?thesis by (simp add: unat_add_lem [THEN iffD1])
qed

lemma cong_avoid_seq_append:
  "cong_avoid_seq ss (xs @ ys) s =
     (case cong_avoid_seq ss xs s of None \<Rightarrow> None | Some s' \<Rightarrow> cong_avoid_seq ss ys s')"
proof (induction xs arbitrary: s)
  case Nil
  show ?case by simp
next
  case (Cons x xs)
  obtain acked limited where x: "x = (acked, limited)" by (cases x)
  show ?case by (simp add: x Cons.IH split: option.split)
qed

lemma update_aimd_38: "update_aimd 38 0 = Some 0"
  by (simp add: update_aimd_def aimd_val_def HSTCP_AIMD_MAX_eq nth_0)

lemma fill_counter_step:
  fixes c :: u32
  assumes "unat c < 37"
  shows "tcp_china_cong_avoid ss True
           \<lparr>snd_cwnd = 38, snd_ssthresh = 19, snd_cwnd_cnt = c, snd_cwnd_clamp = 1000000\<rparr>
           \<lparr>minrtt = 0, artt = 0, ai = 0\<rparr> acked
         = Some (\<lparr>snd_cwnd = 38, snd_ssthresh = 19, snd_cwnd_cnt = c + 1,
                   snd_cwnd_clamp = 1000000\<rparr>,
                 \<lparr>minrtt = 0, artt = 0, ai = 0\<rparr>)"
proof -
  from assms have "unat c + unat (1 :: u32) < 2 ^ 32" by simp
  then have "unat (c + 1) = unat c + 1" by (simp add: unat_add_lem [THEN iffD1])
  with assms have "\<not> 38 \<le> c + 1" by (simp add: word_le_nat_alt)
  then show ?thesis
    by (simp add: tcp_china_cong_avoid_def update_aimd_38 additive_increase_def)
qed

lemma fill_counter_run:
  fixes c :: u32
  assumes "unat c + n \<le> 37"
  shows "cong_avoid_seq ss (replicate n (1, True))
           (\<lparr>snd_cwnd = 38, snd_ssthresh = 19, snd_cwnd_cnt = c, snd_cwnd_clamp = 1000000\<rparr>,
            \<lparr>minrtt = 0, artt = 0, ai = 0\<rparr>)
         = Some (\<lparr>snd_cwnd = 38, snd_ssthresh = 19, snd_cwnd_cnt = c + of_nat n,
                   snd_cwnd_clamp = 1000000\<rparr>,
                 \<lparr>minrtt = 0, artt = 0, ai = 0\<rparr>)"
  using assms
proof (induction n arbitrary: c)
  case 0
  show ?case by simp
next
  case (Suc n)
  then have lt: "unat c < 37" by simp
  then have "unat c + unat (1 :: u32) < 2 ^ 32" by simp
  then have "unat (c + 1) = unat c + 1" by (simp add: unat_add_lem [THEN iffD1])
  with Suc.prems have "unat (c + 1) + n \<le> 37" by simp
  from Suc.IH [OF this] fill_counter_step [OF lt, of ss 1]
  show ?case by (simp add: add.assoc)
qed

text \<open>
  Claim C6. In fast growth (window above the slow-start threshold), window-limited,
  with the window below the clamp and the stored index in the table, the call first
  brings the table index to \<open>i\<close> (the result of the index update, stored in \<open>ai\<close>) and
  adds \<open>i + 1\<close> to the counter, in 32-bit arithmetic. If the counter then is at least
  the window, the window is subtracted from the counter and the window grows by
  exactly one segment (without wrapping); otherwise the window is unchanged. The
  slow-start threshold and the clamp are untouched.
\<close>

theorem cong_avoid_additive_increase:
  assumes "snd_ssthresh tp < snd_cwnd tp" and "snd_cwnd tp < snd_cwnd_clamp tp"
    and "unat (ai ca) < HSTCP_AIMD_MAX"
  shows "\<exists>i tp'. update_aimd (snd_cwnd tp) (ai ca) = Some i
     \<and> tcp_china_cong_avoid tcp_slow_start True tp ca acked = Some (tp', ca\<lparr>ai := i\<rparr>)
     \<and> (if snd_cwnd tp \<le> snd_cwnd_cnt tp + (i + 1)
        then snd_cwnd_cnt tp' = snd_cwnd_cnt tp + (i + 1) - snd_cwnd tp
           \<and> snd_cwnd tp' = snd_cwnd tp + 1
           \<and> unat (snd_cwnd tp') = unat (snd_cwnd tp) + 1
        else snd_cwnd_cnt tp' = snd_cwnd_cnt tp + (i + 1)
           \<and> snd_cwnd tp' = snd_cwnd tp)
     \<and> snd_ssthresh tp' = snd_ssthresh tp
     \<and> snd_cwnd_clamp tp' = snd_cwnd_clamp tp
     \<and> unat (i + 1) = unat i + 1"
proof -
  from update_aimd_spec [OF assms(3), of "snd_cwnd tp"] obtain i where
    i: "update_aimd (snd_cwnd tp) (ai ca) = Some i" "index_invariant (snd_cwnd tp) i"
    by blast
  from i(2) have "unat i < HSTCP_AIMD_MAX" by (simp add: index_invariant_def)
  then have "unat i + unat (1 :: u32) < 2 ^ 32" by (simp add: HSTCP_AIMD_MAX_eq)
  then have ui: "unat (i + 1) = unat i + 1" by (simp add: unat_add_lem [THEN iffD1])
  from assms(1) have fast: "\<not> snd_cwnd tp \<le> snd_ssthresh tp" by simp
  have r: "tcp_china_cong_avoid tcp_slow_start True tp ca acked
      = Some (additive_increase tp i, ca\<lparr>ai := i\<rparr>)"
    using fast i(1) by (simp add: tcp_china_cong_avoid_def)
  have w: "unat (snd_cwnd tp + 1) = unat (snd_cwnd tp) + 1"
    using assms(2) by (rule unat_window_succ)
  have "(if snd_cwnd tp \<le> snd_cwnd_cnt tp + (i + 1)
        then snd_cwnd_cnt (additive_increase tp i) = snd_cwnd_cnt tp + (i + 1) - snd_cwnd tp
           \<and> snd_cwnd (additive_increase tp i) = snd_cwnd tp + 1
           \<and> unat (snd_cwnd (additive_increase tp i)) = unat (snd_cwnd tp) + 1
        else snd_cwnd_cnt (additive_increase tp i) = snd_cwnd_cnt tp + (i + 1)
           \<and> snd_cwnd (additive_increase tp i) = snd_cwnd tp)
     \<and> snd_ssthresh (additive_increase tp i) = snd_ssthresh tp
     \<and> snd_cwnd_clamp (additive_increase tp i) = snd_cwnd_clamp tp"
    using assms(2) w by (simp add: additive_increase_def Let_def)
  with i(1) r ui show ?thesis by blast
qed

theorem cong_avoid_additive_increase_witness:
  "snd_ssthresh \<lparr>snd_cwnd = 38, snd_ssthresh = 10, snd_cwnd_cnt = 37, snd_cwnd_clamp = 1000000\<rparr>
     < snd_cwnd \<lparr>snd_cwnd = 38, snd_ssthresh = 10, snd_cwnd_cnt = 37, snd_cwnd_clamp = 1000000\<rparr>
   \<and> snd_cwnd \<lparr>snd_cwnd = 38, snd_ssthresh = 10, snd_cwnd_cnt = 37, snd_cwnd_clamp = 1000000\<rparr>
     < snd_cwnd_clamp \<lparr>snd_cwnd = 38, snd_ssthresh = 10, snd_cwnd_cnt = 37, snd_cwnd_clamp = 1000000\<rparr>
   \<and> unat (ai \<lparr>minrtt = 0, artt = 0, ai = 0\<rparr>) < HSTCP_AIMD_MAX
   \<and> tcp_china_cong_avoid slow_start_example True
        \<lparr>snd_cwnd = 38, snd_ssthresh = 10, snd_cwnd_cnt = 37, snd_cwnd_clamp = 1000000\<rparr>
        \<lparr>minrtt = 0, artt = 0, ai = 0\<rparr> 1
      = Some (\<lparr>snd_cwnd = 39, snd_ssthresh = 10, snd_cwnd_cnt = 0, snd_cwnd_clamp = 1000000\<rparr>,
              \<lparr>minrtt = 0, artt = 0, ai = 0\<rparr>)"
proof -
  let ?tp = "\<lparr>snd_cwnd = 38, snd_ssthresh = 10, snd_cwnd_cnt = 37, snd_cwnd_clamp = 1000000\<rparr>"
  let ?ca = "\<lparr>minrtt = 0, artt = 0, ai = 0\<rparr>"
  have h1: "snd_ssthresh ?tp < snd_cwnd ?tp" by simp
  have h2: "snd_cwnd ?tp < snd_cwnd_clamp ?tp" by simp
  have h3: "unat (ai ?ca) < HSTCP_AIMD_MAX" by (simp add: HSTCP_AIMD_MAX_eq)
  have u: "update_aimd (snd_cwnd ?tp) (ai ?ca) = Some 0"
    by (simp add: update_aimd_def aimd_val_def HSTCP_AIMD_MAX_eq hstcp_aimd_vals_def)
  from cong_avoid_additive_increase [OF h1 h2 h3, of slow_start_example 1] u
  obtain tp' where
    t: "tcp_china_cong_avoid slow_start_example True ?tp ?ca 1 = Some (tp', ?ca\<lparr>ai := 0\<rparr>)"
       "snd_cwnd_cnt tp' = 0" "snd_cwnd tp' = 39" "snd_ssthresh tp' = 10"
       "snd_cwnd_clamp tp' = 1000000"
    by auto
  from t(2-5) have "tp' = \<lparr>snd_cwnd = 39, snd_ssthresh = 10, snd_cwnd_cnt = 0,
      snd_cwnd_clamp = 1000000\<rparr>"
    by (cases tp') simp
  with t(1) h1 h2 h3 show ?thesis by simp
qed

text \<open>
  Claim C2, as amended. After any sequence of \<open>tcp_china_cong_avoid\<close> calls from an
  initialised state the calls are all defined and the table index is in the table. A
  further call in fast growth and window-limited leaves an index that satisfies the
  boundary relation for the window that call started with; the window it leaves is that
  window or that window plus one. Nothing is said of the relation between the index and
  the window after the call, nor after calls in slow start or not window-limited, which
  do not move the index.
\<close>

theorem index_after_cong_avoid:
  "\<exists>s. cong_avoid_seq tcp_slow_start evs (tcp_china_init tp0 ca0) = Some s
     \<and> unat (ai (snd s)) < HSTCP_AIMD_MAX
     \<and> (snd_ssthresh (fst s) < snd_cwnd (fst s) \<longrightarrow>
          (\<exists>tp' ca'. tcp_china_cong_avoid tcp_slow_start True (fst s) (snd s) acked
                = Some (tp', ca')
             \<and> index_invariant (snd_cwnd (fst s)) (ai ca')
             \<and> (snd_cwnd tp' = snd_cwnd (fst s) \<or> snd_cwnd tp' = snd_cwnd (fst s) + 1)))"
proof -
  have "unat (ai (snd (tcp_china_init tp0 ca0))) < HSTCP_AIMD_MAX"
    by (simp add: tcp_china_init_def tcp_china_reset_def HSTCP_AIMD_MAX_eq)
  from cong_avoid_seq_keeps_index_valid [OF this, of tcp_slow_start evs] obtain s where
    s: "cong_avoid_seq tcp_slow_start evs (tcp_china_init tp0 ca0) = Some s"
       "unat (ai (snd s)) < HSTCP_AIMD_MAX"
    by blast
  have "\<exists>tp' ca'. tcp_china_cong_avoid tcp_slow_start True (fst s) (snd s) acked
                = Some (tp', ca')
             \<and> index_invariant (snd_cwnd (fst s)) (ai ca')
             \<and> (snd_cwnd tp' = snd_cwnd (fst s) \<or> snd_cwnd tp' = snd_cwnd (fst s) + 1)"
    if fast: "snd_ssthresh (fst s) < snd_cwnd (fst s)"
  proof -
    from update_aimd_spec [OF s(2), of "snd_cwnd (fst s)"] obtain j where
      j: "update_aimd (snd_cwnd (fst s)) (ai (snd s)) = Some j"
         "index_invariant (snd_cwnd (fst s)) j"
      by blast
    from fast have "\<not> snd_cwnd (fst s) \<le> snd_ssthresh (fst s)" by simp
    then have "tcp_china_cong_avoid tcp_slow_start True (fst s) (snd s) acked
        = Some (additive_increase (fst s) j, (snd s)\<lparr>ai := j\<rparr>)"
      using j(1) by (simp add: tcp_china_cong_avoid_def)
    moreover have "ai ((snd s)\<lparr>ai := j\<rparr>) = j" by simp
    ultimately show ?thesis
      using j(2) additive_increase_window [of "fst s" j] by auto
  qed
  with s show ?thesis by blast
qed

theorem index_after_cong_avoid_witness:
  "cong_avoid_seq slow_start_example [(1, True)]
       (tcp_china_init
          \<lparr>snd_cwnd = 38, snd_ssthresh = 10, snd_cwnd_cnt = 37, snd_cwnd_clamp = 1000000\<rparr>
          \<lparr>minrtt = 0, artt = 0, ai = 0\<rparr>)
     = Some (\<lparr>snd_cwnd = 39, snd_ssthresh = 10, snd_cwnd_cnt = 0, snd_cwnd_clamp = 1000000\<rparr>,
             \<lparr>minrtt = 0, artt = 0, ai = 0\<rparr>)
   \<and> snd_ssthresh
        \<lparr>snd_cwnd = 39, snd_ssthresh = 10, snd_cwnd_cnt = 0, snd_cwnd_clamp = 1000000\<rparr>
       < snd_cwnd
        \<lparr>snd_cwnd = 39, snd_ssthresh = 10, snd_cwnd_cnt = 0, snd_cwnd_clamp = 1000000\<rparr>
   \<and> (\<exists>tp' ca'. tcp_china_cong_avoid slow_start_example True
          \<lparr>snd_cwnd = 39, snd_ssthresh = 10, snd_cwnd_cnt = 0, snd_cwnd_clamp = 1000000\<rparr>
          \<lparr>minrtt = 0, artt = 0, ai = 0\<rparr> 1 = Some (tp', ca')
        \<and> index_invariant 39 (ai ca')
        \<and> (snd_cwnd tp' = 39 \<or> snd_cwnd tp' = 39 + 1))"
proof -
  let ?tp = "\<lparr>snd_cwnd = 38, snd_ssthresh = 10, snd_cwnd_cnt = 37, snd_cwnd_clamp = 1000000\<rparr>"
  let ?ca = "\<lparr>minrtt = 0, artt = 0, ai = 0\<rparr>"
  let ?s = "(\<lparr>snd_cwnd = 39, snd_ssthresh = 10, snd_cwnd_cnt = 0, snd_cwnd_clamp = 1000000\<rparr>,
             \<lparr>minrtt = 0, artt = 0, ai = 0\<rparr>)"
  have run: "cong_avoid_seq slow_start_example [(1, True)] (tcp_china_init ?tp ?ca) = Some ?s"
    by (simp add: tcp_china_init_def tcp_china_reset_def tcp_china_cong_avoid_def
        update_aimd_def aimd_val_def HSTCP_AIMD_MAX_eq nth_0 additive_increase_def)
  from index_after_cong_avoid [of slow_start_example "[(1, True)]" ?tp ?ca 1]
  show ?thesis unfolding run by simp
qed

text \<open>
  Claim C2 as stated has the boundary relation hold for the current window after any
  sequence of calls. From an initialised state with window 38, threshold 19 and an empty
  counter, where the relation holds (index 0), 38 window-limited calls bring the window
  to 39 with the index still 0, and the relation fails.
\<close>

theorem index_after_cong_avoid_counterexample:
  "index_invariant
       (snd_cwnd (fst (tcp_china_init
          \<lparr>snd_cwnd = 38, snd_ssthresh = 19, snd_cwnd_cnt = 0, snd_cwnd_clamp = 1000000\<rparr>
          \<lparr>minrtt = 0, artt = 0, ai = 0\<rparr>)))
       (ai (snd (tcp_china_init
          \<lparr>snd_cwnd = 38, snd_ssthresh = 19, snd_cwnd_cnt = 0, snd_cwnd_clamp = 1000000\<rparr>
          \<lparr>minrtt = 0, artt = 0, ai = 0\<rparr>)))
   \<and> cong_avoid_seq slow_start_example (replicate 38 (1, True))
       (tcp_china_init
          \<lparr>snd_cwnd = 38, snd_ssthresh = 19, snd_cwnd_cnt = 0, snd_cwnd_clamp = 1000000\<rparr>
          \<lparr>minrtt = 0, artt = 0, ai = 0\<rparr>)
     = Some (\<lparr>snd_cwnd = 39, snd_ssthresh = 19, snd_cwnd_cnt = 0, snd_cwnd_clamp = 1000000\<rparr>,
             \<lparr>minrtt = 0, artt = 0, ai = 0\<rparr>)
   \<and> \<not> index_invariant 39 0"
proof -
  let ?tp = "\<lparr>snd_cwnd = 38, snd_ssthresh = 19, snd_cwnd_cnt = 0, snd_cwnd_clamp = 1000000\<rparr>"
  let ?ca = "\<lparr>minrtt = 0, artt = 0, ai = 0\<rparr>"
  let ?ev = "(1 :: u32, True)"
  have init: "tcp_china_init ?tp ?ca = (?tp, ?ca)"
    by (simp add: tcp_china_init_def tcp_china_reset_def)
  have before: "index_invariant 38 0"
    by (simp add: index_invariant_def HSTCP_AIMD_MAX_eq nth_0 nth_71)
  have after: "\<not> index_invariant 39 0"
    by (simp add: index_invariant_def HSTCP_AIMD_MAX_eq nth_0 nth_71)
  have "unat (0 :: u32) + 37 \<le> 37" by simp
  from fill_counter_run [OF this, of slow_start_example]
  have first: "cong_avoid_seq slow_start_example (replicate 37 ?ev) (?tp, ?ca)
      = Some (\<lparr>snd_cwnd = 38, snd_ssthresh = 19, snd_cwnd_cnt = 37, snd_cwnd_clamp = 1000000\<rparr>,
              ?ca)"
    by simp
  have last: "cong_avoid_seq slow_start_example [?ev]
        (\<lparr>snd_cwnd = 38, snd_ssthresh = 19, snd_cwnd_cnt = 37, snd_cwnd_clamp = 1000000\<rparr>, ?ca)
      = Some (\<lparr>snd_cwnd = 39, snd_ssthresh = 19, snd_cwnd_cnt = 0, snd_cwnd_clamp = 1000000\<rparr>,
              ?ca)"
    by (simp add: tcp_china_cong_avoid_def update_aimd_38 additive_increase_def)
  have "replicate (Suc 37) ?ev = replicate 37 ?ev @ [?ev]"
    by (simp only: replicate_Suc replicate_append_same)
  moreover have "Suc 37 = 38" by simp
  ultimately have "replicate 38 ?ev = replicate 37 ?ev @ [?ev]"
    by (simp only:)
  then have run: "cong_avoid_seq slow_start_example (replicate 38 ?ev) (?tp, ?ca)
      = Some (\<lparr>snd_cwnd = 39, snd_ssthresh = 19, snd_cwnd_cnt = 0, snd_cwnd_clamp = 1000000\<rparr>,
              ?ca)"
    by (simp only: cong_avoid_seq_append first last option.case)
  show ?thesis
    unfolding init using before after run by simp
qed

end
